theory Spec2Isabelle
  imports Main "HOL-Library.Word"
begin

section \<open>Values of the decoded CBOR tree\<close>

text \<open>
  The script \<^verbatim>\<open>cbordump.py\<close> reads CBOR items from standard input, rewrites each with
  \<^verbatim>\<open>jsonable\<close> and prints it as a line of JSON. A Python \<^verbatim>\<open>bytes\<close> object is a list of
  octets; a Python \<^verbatim>\<open>str\<close> is a list of Unicode code points, which exceed one octet, so
  it is a list of naturals.
\<close>

type_synonym bytes = "8 word list"
type_synonym pystr = "nat list"

text \<open>The exceptions that the modelled code paths can raise.\<close>

datatype exn = UnicodeDecodeError | TypeError | EOFError | ValueError

text \<open>
  A float is never inspected by the script; it is carried as mantissa and exponent, an
  infinity with its sign, or not-a-number.
\<close>

datatype pyfloat = Finite int int | Infinity bool | NaN

text \<open>
  Keys of a decoded map: a text string, an integer or a byte string. Only a text key
  supports \<^verbatim>\<open>k + '_b64'\<close>; on every other key Python raises \<^verbatim>\<open>TypeError\<close>, which
  the integer and the byte-string key stand for (the remaining hashable keys, such as
  floats, behave as they do).
\<close>

datatype pykey = KText pystr | KInt int | KBytes bytes

text \<open>
  A \<^verbatim>\<open>dict\<close> keeps its entries in insertion order, so it is an association list; the
  keys of a dict are pairwise distinct.
\<close>

datatype pyval =
    PNone
  | PBool bool
  | PInt int
  | PFloat pyfloat
  | PBytes bytes
  | PStr pystr
  | PList "pyval list"
  | PDict "(pykey \<times> pyval) list"
  | PTag nat pyval

type_synonym pydict = "(pykey \<times> pyval) list"

text \<open>A string literal of the source, as code points.\<close>

definition str :: "string \<Rightarrow> pystr" where
  "str s = map of_char s"

section \<open>Dictionaries\<close>

text \<open>
  \<^verbatim>\<open>out[k] = v\<close>: an existing key keeps its position and takes the new value, a new key
  is appended.
\<close>

fun dict_set :: "pydict \<Rightarrow> pykey \<Rightarrow> pyval \<Rightarrow> pydict" where
  "dict_set [] k v = [(k, v)]"
| "dict_set ((k', v') # d) k v =
     (if k' = k then (k, v) # d else (k', v') # dict_set d k v)"

text \<open>\<^verbatim>\<open>d.get(k)\<close>: the value stored under a key, if any.\<close>

fun dict_get :: "pydict \<Rightarrow> pykey \<Rightarrow> pyval option" where
  "dict_get [] k = None"
| "dict_get ((k', v') # d) k = (if k' = k then Some v' else dict_get d k)"

section \<open>Strict UTF-8 decoding: \<^verbatim>\<open>bytes.decode()\<close>\<close>

text \<open>
  \<^verbatim>\<open>x.decode()\<close> decodes UTF-8 strictly: it raises \<^verbatim>\<open>UnicodeDecodeError\<close> on a stray
  continuation octet, a truncated sequence, an overlong form, a surrogate or a value
  above U+10FFFF. The lead octet fixes the length of a sequence.
\<close>

definition is_cont :: "nat \<Rightarrow> bool" where
  "is_cont b = (0x80 \<le> b \<and> b \<le> 0xBF)"

definition seq_len :: "nat \<Rightarrow> nat" where
  "seq_len b0 =
     (if b0 < 0x80 then 1
      else if 0xC2 \<le> b0 \<and> b0 \<le> 0xDF then 2
      else if 0xE0 \<le> b0 \<and> b0 \<le> 0xEF then 3
      else if 0xF0 \<le> b0 \<and> b0 \<le> 0xF4 then 4
      else 0)"

fun utf8_char :: "nat list \<Rightarrow> nat option" where
  "utf8_char [b0] = (if b0 < 0x80 then Some b0 else None)"
| "utf8_char [b0, b1] =
     (if 0xC2 \<le> b0 \<and> b0 \<le> 0xDF \<and> is_cont b1
      then Some ((b0 - 0xC0) * 0x40 + (b1 - 0x80)) else None)"
| "utf8_char [b0, b1, b2] =
     (if 0xE0 \<le> b0 \<and> b0 \<le> 0xEF
         \<and> (if b0 = 0xE0 then 0xA0 else 0x80) \<le> b1
         \<and> b1 \<le> (if b0 = 0xED then 0x9F else 0xBF) \<and> is_cont b2
      then Some ((b0 - 0xE0) * 0x1000 + (b1 - 0x80) * 0x40 + (b2 - 0x80)) else None)"
| "utf8_char [b0, b1, b2, b3] =
     (if 0xF0 \<le> b0 \<and> b0 \<le> 0xF4
         \<and> (if b0 = 0xF0 then 0x90 else 0x80) \<le> b1
         \<and> b1 \<le> (if b0 = 0xF4 then 0x8F else 0xBF)
         \<and> is_cont b2 \<and> is_cont b3
      then Some ((b0 - 0xF0) * 0x40000 + (b1 - 0x80) * 0x1000
                 + (b2 - 0x80) * 0x40 + (b3 - 0x80)) else None)"
| "utf8_char _ = None"

fun utf8 :: "nat list \<Rightarrow> exn + pystr" where
  "utf8 [] = Inr []"
| "utf8 (b0 # bs) =
     (case utf8_char (take (seq_len b0) (b0 # bs)) of
        None \<Rightarrow> Inl UnicodeDecodeError
      | Some c \<Rightarrow>
          (case utf8 (drop (seq_len b0 - 1) bs) of
             Inl e \<Rightarrow> Inl e
           | Inr cs \<Rightarrow> Inr (c # cs)))"

definition decode :: "bytes \<Rightarrow> exn + pystr" where
  "decode x = utf8 (map unat x)"

section \<open>The printable-text predicate\<close>

text \<open>
  \<^verbatim>\<open>try: body except: handler\<close> with a bare \<^verbatim>\<open>except\<close>: every exception of the body
  is handed to the handler.
\<close>

definition try_except :: "exn + 'a \<Rightarrow> (exn \<Rightarrow> exn + 'a) \<Rightarrow> exn + 'a" where
  "try_except body handler = (case body of Inl e \<Rightarrow> handler e | Inr r \<Rightarrow> Inr r)"

text \<open>
  The loop \<^verbatim>\<open>for cs in y\<close> of \<^verbatim>\<open>maybestr\<close>: \<^verbatim>\<open>return None\<close> at the first code point
  outside \<^verbatim>\<open>0x20 <= c <= 0x7f\<close>, \<^verbatim>\<open>return y\<close> after the last one.
\<close>

fun maybestr_loop :: "pystr \<Rightarrow> pystr \<Rightarrow> pyval" where
  "maybestr_loop y [] = PStr y"
| "maybestr_loop y (c # cs) =
     (if 0x20 \<le> c \<and> c \<le> 0x7f then maybestr_loop y cs else PNone)"

definition maybestr :: "bytes \<Rightarrow> exn + pyval" where
  "maybestr x =
     try_except
       (case decode x of Inl e \<Rightarrow> Inl e | Inr y \<Rightarrow> Inr (maybestr_loop y y))
       (\<lambda>e. Inr PNone)"

text \<open>The truth value of a Python object, as \<^verbatim>\<open>if xs:\<close> takes it.\<close>

fun truthy :: "pyval \<Rightarrow> bool" where
  "truthy PNone = False"
| "truthy (PBool b) = b"
| "truthy (PInt i) = (i \<noteq> 0)"
| "truthy (PFloat f) = (case f of Finite m e \<Rightarrow> m \<noteq> 0 | Infinity s \<Rightarrow> True | NaN \<Rightarrow> True)"
| "truthy (PBytes b) = (b \<noteq> [])"
| "truthy (PStr s) = (s \<noteq> [])"
| "truthy (PList l) = (l \<noteq> [])"
| "truthy (PDict d) = (d \<noteq> [])"
| "truthy (PTag t v) = True"

section \<open>Standard base64: \<^verbatim>\<open>base64.b64encode\<close>\<close>

definition b64_alphabet :: string where
  "b64_alphabet = ''ABCDEFGHIJKLMNOPQRSTUVWXYZabcdefghijklmnopqrstuvwxyz0123456789+/''"

definition b64_char :: "nat \<Rightarrow> 8 word" where
  "b64_char i = of_char (b64_alphabet ! i)"

text \<open>
  Three octets give four characters; a last group of one or two octets is padded with
  \<^verbatim>\<open>=\<close> (0x3D). The result is a \<^verbatim>\<open>bytes\<close> object.
\<close>

fun b64encode :: "bytes \<Rightarrow> bytes" where
  "b64encode [] = []"
| "b64encode [a] =
     [b64_char (unat a div 4), b64_char (unat a mod 4 * 16), 0x3D, 0x3D]"
| "b64encode [a, b] =
     [b64_char (unat a div 4), b64_char (unat a mod 4 * 16 + unat b div 16),
      b64_char (unat b mod 16 * 4), 0x3D]"
| "b64encode (a # b # c # r) =
     [b64_char (unat a div 4), b64_char (unat a mod 4 * 16 + unat b div 16),
      b64_char (unat b mod 16 * 4 + unat c div 64), b64_char (unat c mod 64)]
     @ b64encode r"

section \<open>The transform \<^verbatim>\<open>jsonable\<close>\<close>

text \<open>\<^verbatim>\<open>k + s\<close> for a string \<^verbatim>\<open>s\<close>: concatenation on a text key, \<^verbatim>\<open>TypeError\<close> otherwise.\<close>

fun key_add :: "pykey \<Rightarrow> pystr \<Rightarrow> exn + pykey" where
  "key_add (KText k) s = Inr (KText (k @ s))"
| "key_add (KInt i) s = Inl TypeError"
| "key_add (KBytes b) s = Inl TypeError"

text \<open>
  \<^verbatim>\<open>jsonable_items\<close> is the loop \<^verbatim>\<open>for k, v in x.items()\<close>, with the dict \<^verbatim>\<open>out\<close> built
  so far. In \<^verbatim>\<open>out[k + '_b64'] = base64.b64encode(v).decode()\<close> the right-hand side is
  evaluated before the key.
\<close>

fun jsonable :: "pyval \<Rightarrow> exn + pyval"
  and jsonable_items :: "pydict \<Rightarrow> pydict \<Rightarrow> exn + pydict" where
  "jsonable (PDict x) =
     (case jsonable_items x [] of Inl e \<Rightarrow> Inl e | Inr out \<Rightarrow> Inr (PDict out))"
| "jsonable x = Inr x"
| "jsonable_items [] out = Inr out"
| "jsonable_items ((k, v) # rest) out =
     (case v of
        PBytes b \<Rightarrow>
          (case maybestr b of
             Inl e \<Rightarrow> Inl e
           | Inr xs \<Rightarrow>
               if truthy xs then jsonable_items rest (dict_set out k xs)
               else
                 (case decode (b64encode b) of
                    Inl e \<Rightarrow> Inl e
                  | Inr s \<Rightarrow>
                      (case key_add k (str ''_b64'') of
                         Inl e \<Rightarrow> Inl e
                       | Inr k' \<Rightarrow> jsonable_items rest (dict_set out k' (PStr s)))))
      | _ \<Rightarrow>
          (case jsonable v of
             Inl e \<Rightarrow> Inl e
           | Inr v' \<Rightarrow> jsonable_items rest (dict_set out k v')))"

section \<open>The main loop\<close>

text \<open>
  How the interpreter leaves the script: by running off its end, or by an exception
  that nothing catches. The exit status is 0 in the first case and 1 in the second.
\<close>

datatype outcome = Finished | Uncaught exn

fun exit_status :: "outcome \<Rightarrow> nat" where
  "exit_status Finished = 0"
| "exit_status (Uncaught e) = 1"

text \<open>
  \<^verbatim>\<open>while True: ob = cbor.cbor.load(bstdin); json.dump(jsonable(ob), sys.stdout);
  sys.stdout.write('\n')\<close>. The decoder \<^verbatim>\<open>load\<close> and the printer \<^verbatim>\<open>dump\<close> belong to
  libraries and are parameters: \<^verbatim>\<open>load\<close> takes the unread input and returns an item with
  the input left, or raises; \<^verbatim>\<open>dump\<close> returns the JSON text or raises. The state is the
  unread input and the chunks written to standard output. The loop may run forever,
  which is the value \<open>None\<close>.
\<close>

partial_function (option) main_loop ::
  "(bytes \<Rightarrow> exn + pyval \<times> bytes) \<Rightarrow> (pyval \<Rightarrow> exn + pystr) \<Rightarrow> bytes \<Rightarrow> pystr list
     \<Rightarrow> (outcome \<times> pystr list) option" where
  "main_loop load dump inp out =
     (if True then
        (case load inp of
           Inl e \<Rightarrow> Some (Uncaught e, out)
         | Inr (ob, rest) \<Rightarrow>
             (case jsonable ob of
                Inl e \<Rightarrow> Some (Uncaught e, out)
              | Inr j \<Rightarrow>
                  (case dump j of
                     Inl e \<Rightarrow> Some (Uncaught e, out)
                   | Inr line \<Rightarrow> main_loop load dump rest (out @ [line, str ''\<newline>'']))))
      else Some (Finished, out))"

section \<open>Notions used to state the properties\<close>

text \<open>The tests \<^verbatim>\<open>isinstance(x, dict)\<close> and \<^verbatim>\<open>isinstance(v, bytes)\<close>.\<close>

fun isinstance_dict :: "pyval \<Rightarrow> bool" where
  "isinstance_dict (PDict x) = True"
| "isinstance_dict x = False"

fun isinstance_bytes :: "pyval \<Rightarrow> bool" where
  "isinstance_bytes (PBytes b) = True"
| "isinstance_bytes v = False"

text \<open>
  What one round of the loop of \<^verbatim>\<open>jsonable\<close> stores for the entry \<^verbatim>\<open>(k, v)\<close>: the value
  \<open>out_val v\<close> under the key \<open>out_key (k, v)\<close>. An entry takes the base64 path when
  its value is a byte string for which \<^verbatim>\<open>maybestr\<close> gives a false object.
\<close>

definition out_val :: "pyval \<Rightarrow> exn + pyval" where
  "out_val v =
     (case v of
        PBytes b \<Rightarrow>
          (case maybestr b of
             Inl e \<Rightarrow> Inl e
           | Inr xs \<Rightarrow>
               if truthy xs then Inr xs
               else (case decode (b64encode b) of Inl e \<Rightarrow> Inl e | Inr s \<Rightarrow> Inr (PStr s)))
      | _ \<Rightarrow> jsonable v)"

definition out_key :: "pykey \<times> pyval \<Rightarrow> exn + pykey" where
  "out_key e =
     (case snd e of
        PBytes b \<Rightarrow>
          (case maybestr b of
             Inl e' \<Rightarrow> Inl e'
           | Inr xs \<Rightarrow> if truthy xs then Inr (fst e) else key_add (fst e) (str ''_b64''))
      | _ \<Rightarrow> Inr (fst e))"

definition base64_path :: "pyval \<Rightarrow> bool" where
  "base64_path v =
     (case v of
        PBytes b \<Rightarrow> (case maybestr b of Inl e \<Rightarrow> False | Inr xs \<Rightarrow> \<not> truthy xs)
      | _ \<Rightarrow> False)"

text \<open>
  The normal inputs: every key of the mapping is a text string, and so is every key of
  the mappings that \<^verbatim>\<open>jsonable\<close> descends into, which are the mappings stored directly
  as values of a mapping.
\<close>

fun text_keys :: "pyval \<Rightarrow> bool"
  and text_keys_items :: "pydict \<Rightarrow> bool" where
  "text_keys (PDict x) = text_keys_items x"
| "text_keys v = True"
| "text_keys_items [] = True"
| "text_keys_items ((k, v) # rest) =
     ((case k of KText t \<Rightarrow> True | KInt i \<Rightarrow> False | KBytes b \<Rightarrow> False)
      \<and> text_keys v \<and> text_keys_items rest)"

subsection \<open>Standard base64 decoding\<close>

text \<open>
  The standard base64 decoding that the round-trip property speaks of, after RFC 4648:
  four characters of the alphabet give three octets, and only the last group may end in
  one or two \<^verbatim>\<open>=\<close>. Text of another shape is refused with an error. The script itself
  never decodes base64.
\<close>

fun index_of :: "'a list \<Rightarrow> 'a \<Rightarrow> nat option" where
  "index_of [] c = None"
| "index_of (x # xs) c = (if x = c then Some 0 else map_option Suc (index_of xs c))"

definition b64_index :: "nat \<Rightarrow> nat option" where
  "b64_index c = index_of (str b64_alphabet) c"

fun b64decode :: "pystr \<Rightarrow> exn + bytes" where
  "b64decode [] = Inr []"
| "b64decode (c0 # c1 # c2 # c3 # r) =
     (if c3 = 0x3D then
        (if r \<noteq> [] then Inl ValueError
         else if c2 = 0x3D then
           (case those [b64_index c0, b64_index c1] of
              Some [i0, i1] \<Rightarrow> Inr [of_nat (i0 * 4 + i1 div 16)]
            | _ \<Rightarrow> Inl ValueError)
         else
           (case those [b64_index c0, b64_index c1, b64_index c2] of
              Some [i0, i1, i2] \<Rightarrow>
                Inr [of_nat (i0 * 4 + i1 div 16), of_nat (i1 mod 16 * 16 + i2 div 4)]
            | _ \<Rightarrow> Inl ValueError))
      else
        (case those [b64_index c0, b64_index c1, b64_index c2, b64_index c3] of
           Some [i0, i1, i2, i3] \<Rightarrow>
             (case b64decode r of
                Inl e \<Rightarrow> Inl e
              | Inr bs \<Rightarrow>
                  Inr (of_nat (i0 * 4 + i1 div 16) # of_nat (i1 mod 16 * 16 + i2 div 4)
                       # of_nat (i2 mod 4 * 64 + i3) # bs))
         | _ \<Rightarrow> Inl ValueError))"
| "b64decode cs = Inl ValueError"

subsection \<open>A decoder and a printer to run the loop on concrete input\<close>

text \<open>
  The loop is stated for every decoder and printer. To run it, here are a decoder and a
  printer for the fragment of CBOR made of the simple values \<^verbatim>\<open>false\<close> (0xF4),
  \<^verbatim>\<open>true\<close> (0xF5) and \<^verbatim>\<open>null\<close> (0xF6). At the end of the input the decoder raises
  \<^verbatim>\<open>EOFError\<close>, as \<^verbatim>\<open>cbor.cbor.load\<close> does when its first read returns no octet; an
  octet outside the fragment is refused.
\<close>

fun load_simple :: "bytes \<Rightarrow> exn + pyval \<times> bytes" where
  "load_simple [] = Inl EOFError"
| "load_simple (b # rest) =
     (if b = 0xF4 then Inr (PBool False, rest)
      else if b = 0xF5 then Inr (PBool True, rest)
      else if b = 0xF6 then Inr (PNone, rest)
      else Inl ValueError)"

fun dump_simple :: "pyval \<Rightarrow> exn + pystr" where
  "dump_simple PNone = Inr (str ''null'')"
| "dump_simple (PBool b) = Inr (if b then str ''true'' else str ''false'')"
| "dump_simple v = Inl TypeError"

section \<open>The printable-text predicate \<^verbatim>\<open>maybestr\<close>\<close>

lemma maybestr_loop_eq:
  "maybestr_loop y cs = (if \<forall>c\<in>set cs. 0x20 \<le> c \<and> c \<le> 0x7f then PStr y else PNone)"
  by (induction cs) auto

lemma maybestr_eq:
  "maybestr x =
     Inr (case decode x of
            Inl e \<Rightarrow> PNone
          | Inr y \<Rightarrow> if \<forall>c\<in>set y. 0x20 \<le> c \<and> c \<le> 0x7f then PStr y else PNone)"
  by (simp add: maybestr_def try_except_def maybestr_loop_eq split: sum.split)

text \<open>
  C4. For every byte string \<open>x\<close>, \<^verbatim>\<open>maybestr\<close> returns the decoded text of \<open>x\<close> exactly when
  UTF-8 decoding succeeds and every code point of the text lies in \<open>[0x20, 0x7F]\<close>; when
  decoding raises or a code point lies outside the range, it returns \<^verbatim>\<open>None\<close>. It never
  raises.
\<close>

theorem maybestr_spec:
  "maybestr x =
     Inr (case decode x of
            Inl e \<Rightarrow> PNone
          | Inr y \<Rightarrow> if \<forall>c\<in>set y. 0x20 \<le> c \<and> c \<le> 0x7f then PStr y else PNone)"
  by (rule maybestr_eq)

theorem maybestr_spec_witness:
  "maybestr [0x41, 0x7f, 0x20] = Inr (PStr [0x41, 0x7f, 0x20])
   \<and> maybestr [0x41, 0x1f] = Inr PNone
   \<and> maybestr [0xC3, 0xA9] = Inr PNone
   \<and> maybestr [0x41, 0xff] = Inr PNone"
  using maybestr_spec [of "[0x41, 0x7f, 0x20]"] maybestr_spec [of "[0x41, 0x1f]"]
    maybestr_spec [of "[0xC3, 0xA9]"] maybestr_spec [of "[0x41, 0xff]"]
  by (simp add: decode_def seq_len_def is_cont_def)

section \<open>Values that are not mappings\<close>

text \<open>
  C3. For every value \<open>v\<close> that is not a mapping (a sequence, a byte string, a text
  string, a number, a boolean, null), \<^verbatim>\<open>jsonable v\<close> is \<open>v\<close>: the elements of a sequence
  are not visited and a byte string is left as it is.
\<close>

theorem jsonable_identity_non_mapping:
  "\<not> isinstance_dict v \<Longrightarrow> jsonable v = Inr v"
  by (cases v) simp_all

theorem jsonable_identity_non_mapping_witness:
  "\<not> isinstance_dict (PList [PBytes [0xff], PDict [(KText (str ''a''), PBytes [0xff])]])
   \<and> jsonable (PList [PBytes [0xff], PDict [(KText (str ''a''), PBytes [0xff])]])
       = Inr (PList [PBytes [0xff], PDict [(KText (str ''a''), PBytes [0xff])]])"
  using jsonable_identity_non_mapping
    [of "PList [PBytes [0xff], PDict [(KText (str ''a''), PBytes [0xff])]]"]
  by simp

section \<open>The empty byte string\<close>

lemma maybestr_empty: "maybestr [] = Inr (PStr [])"
  by (simp add: maybestr_def try_except_def decode_def)

text \<open>
  C5. For an entry \<open>(k, b"")\<close> with a text key, \<^verbatim>\<open>maybestr\<close> returns the empty text, which
  \<^verbatim>\<open>if xs:\<close> takes as false: the loop stores the empty text under \<open>k + "_b64"\<close>, the
  base64 of no octets, and nothing under \<open>k\<close>.
\<close>

theorem empty_bytes_base64_path:
  "maybestr [] = Inr (PStr [])
   \<and> \<not> truthy (PStr [])
   \<and> jsonable_items ((KText k, PBytes []) # rest) out
       = jsonable_items rest (dict_set out (KText (k @ str ''_b64'')) (PStr []))
   \<and> jsonable (PDict [(KText k, PBytes [])])
       = Inr (PDict [(KText (k @ str ''_b64''), PStr [])])"
  by (simp add: maybestr_empty decode_def)

section \<open>Decoding text of 7-bit octets\<close>

lemma utf8_ascii: "\<forall>b\<in>set bs. b < 0x80 \<Longrightarrow> utf8 bs = Inr bs"
  by (induction bs) (simp_all add: seq_len_def)

lemma utf8_char_ascii: "utf8_char xs = Some c \<Longrightarrow> c < 0x80 \<Longrightarrow> xs = [c]"
  by (induction xs rule: utf8_char.induct) (auto simp: is_cont_def split: if_splits)

lemma utf8_ascii_only:
  "utf8 bs = Inr y \<Longrightarrow> \<forall>c\<in>set y. c < 0x80 \<Longrightarrow> y = bs"
proof (induction bs arbitrary: y rule: utf8.induct)
  case 1
  then show ?case by simp
next
  case (2 b0 bs)
  from "2.prems"(1) obtain c cs where
    c: "utf8_char (take (seq_len b0) (b0 # bs)) = Some c"
    and cs: "utf8 (drop (seq_len b0 - 1) bs) = Inr cs"
    and y: "y = c # cs"
    by (auto split: option.splits sum.splits)
  from "2.prems"(2) y have lt: "c < 0x80" and rest: "\<forall>c\<in>set cs. c < 0x80" by simp_all
  from utf8_char_ascii [OF c lt] have t: "take (seq_len b0) (b0 # bs) = [c]" .
  then have b0: "b0 = c" by (cases "seq_len b0") simp_all
  with lt have n: "seq_len b0 = 1" by (simp add: seq_len_def)
  from "2.IH" [OF c] cs rest n have "cs = bs" by simp
  with y b0 show ?case by simp
qed

lemma maybestr_printable:
  assumes "\<forall>x\<in>set b. 0x20 \<le> x \<and> x \<le> (0x7F :: 8 word)"
  shows "maybestr b = Inr (PStr (map unat b))"
proof -
  from assms have r: "\<forall>c\<in>set (map unat b). 0x20 \<le> c \<and> c \<le> 0x7f"
    by (auto simp: word_le_nat_alt)
  then have "\<forall>c\<in>set (map unat b). c < 0x80" by auto
  then have "decode b = Inr (map unat b)"
    unfolding decode_def by (rule utf8_ascii)
  with r show ?thesis by (simp add: maybestr_eq del: set_map)
qed

lemma maybestr_unprintable:
  assumes "(\<exists>x\<in>set b. x < 0x20 \<or> (0x7F :: 8 word) < x) \<or> (\<exists>e. decode b = Inl e)"
  shows "maybestr b = Inr PNone"
proof (cases "decode b")
  case (Inl e)
  then show ?thesis by (simp add: maybestr_eq)
next
  case (Inr y)
  with assms obtain x where x: "x \<in> set b" "x < 0x20 \<or> 0x7F < x" by auto
  have "\<not> (\<forall>c\<in>set y. 0x20 \<le> c \<and> c \<le> 0x7f)"
  proof
    assume a: "\<forall>c\<in>set y. 0x20 \<le> c \<and> c \<le> 0x7f"
    then have "\<forall>c\<in>set y. c < 0x80" by auto
    with Inr have "y = map unat b" unfolding decode_def by (rule utf8_ascii_only)
    with x(1) a have "0x20 \<le> unat x \<and> unat x \<le> 0x7f" by simp
    with x(2) show False by (simp add: word_less_nat_alt)
  qed
  with Inr show ?thesis by (simp add: maybestr_eq)
qed

section \<open>Base64: the encoder writes the alphabet, the decoder inverts it\<close>

lemma index_of_nth: "distinct xs \<Longrightarrow> i < length xs \<Longrightarrow> index_of xs (xs ! i) = Some i"
proof (induction xs arbitrary: i)
  case Nil
  then show ?case by simp
next
  case (Cons x xs)
  then show ?case by (cases i) auto
qed

lemma unat_of_char: "unat (of_char c :: 8 word) = of_char c"
proof -
  have "unat (of_nat (of_char c) :: 8 word) = of_char c mod 2 ^ 8"
    by (simp add: unat_of_nat)
  then show ?thesis by (simp add: of_nat_of_char)
qed

lemma alphabet_distinct: "distinct (str b64_alphabet)" "length b64_alphabet = 64"
  by (simp_all add: str_def b64_alphabet_def)

lemma alphabet_ascii: "\<forall>c\<in>set (str b64_alphabet). c < 0x80 \<and> c \<noteq> 0x3D"
  by (simp add: str_def b64_alphabet_def)

lemma b64_char_facts:
  assumes "i < 64"
  shows "b64_index (unat (b64_char i)) = Some i" "unat (b64_char i) < 0x80"
    "unat (b64_char i) \<noteq> 0x3D"
proof -
  have e: "unat (b64_char i) = str b64_alphabet ! i"
    using assms by (simp add: b64_char_def unat_of_char str_def alphabet_distinct(2))
  have l: "i < length (str b64_alphabet)"
    using assms by (simp add: str_def alphabet_distinct(2))
  show "b64_index (unat (b64_char i)) = Some i"
    unfolding e b64_index_def using alphabet_distinct(1) l by (rule index_of_nth)
  from l have "str b64_alphabet ! i \<in> set (str b64_alphabet)" by (rule nth_mem)
  with alphabet_ascii show "unat (b64_char i) < 0x80" "unat (b64_char i) \<noteq> 0x3D"
    unfolding e by auto
qed

lemma octet_less: "unat (x :: 8 word) < 256"
  using unsigned_less [of x] by simp

lemma sextet_bounds:
  fixes a b c :: nat
  shows "a < 256 \<Longrightarrow> a div 4 < 64" "a mod 4 * 16 < 64"
    "b < 256 \<Longrightarrow> a mod 4 * 16 + b div 16 < 64"
    "b mod 16 * 4 < 64" "c < 256 \<Longrightarrow> b mod 16 * 4 + c div 64 < 64" "c mod 64 < 64"
  by auto

lemma small_div_mod:
  fixes b :: nat
  shows "b < 256 \<Longrightarrow> b div 16 div 16 = 0" "b < 256 \<Longrightarrow> b div 16 mod 16 = b div 16"
    "b < 256 \<Longrightarrow> b div 64 div 4 = 0" "b < 256 \<Longrightarrow> b div 64 mod 4 = b div 64"
  by (simp_all add: div_mult2_eq [symmetric] less_mult_imp_div_less)

lemma b64encode_ascii: "\<forall>c\<in>set (b64encode b). unat c < 0x80"
proof (induction b rule: b64encode.induct)
  case 1
  show ?case by simp
next
  case (2 a)
  show ?case
    using octet_less [of a] by (simp add: b64_char_facts(2) sextet_bounds)
next
  case (3 a b)
  show ?case
    using octet_less [of a] octet_less [of b] by (simp add: b64_char_facts(2) sextet_bounds)
next
  case (4 a b c r)
  show ?case
    using octet_less [of a] octet_less [of b] octet_less [of c] 4
    by (simp add: b64_char_facts(2) sextet_bounds)
qed

lemma decode_b64encode: "decode (b64encode b) = Inr (map unat (b64encode b))"
  unfolding decode_def using b64encode_ascii [of b] by (intro utf8_ascii) simp

lemma b64_roundtrip: "b64decode (map unat (b64encode b)) = Inr b"
proof (induction b rule: b64encode.induct)
  case 1
  show ?case by simp
next
  case (2 a)
  show ?case
    using octet_less [of a]
    by (simp add: b64_char_facts sextet_bounds small_div_mod del: of_nat_add of_nat_mult)
next
  case (3 a b)
  show ?case
    using octet_less [of a] octet_less [of b]
    by (simp add: b64_char_facts sextet_bounds small_div_mod del: of_nat_add of_nat_mult)
next
  case (4 a b c r)
  show ?case
    using octet_less [of a] octet_less [of b] octet_less [of c] 4
    by (simp add: b64_char_facts sextet_bounds small_div_mod del: of_nat_add of_nat_mult)
qed

section \<open>The loop over the entries of a mapping\<close>

lemma dict_get_set:
  "dict_get (dict_set d k v) k' = (if k' = k then Some v else dict_get d k')"
  by (induction d) auto

lemma items_step:
  "jsonable_items ((k, v) # rest) out =
     (case out_val v of
        Inl e \<Rightarrow> Inl e
      | Inr V \<Rightarrow>
          (case out_key (k, v) of
             Inl e \<Rightarrow> Inl e
           | Inr K \<Rightarrow> jsonable_items rest (dict_set out K V)))"
  by (cases v) (simp_all add: out_val_def out_key_def split: sum.splits)

lemma items_append:
  "jsonable_items (pre @ post) out =
     (case jsonable_items pre out of Inl e \<Rightarrow> Inl e | Inr mid \<Rightarrow> jsonable_items post mid)"
proof (induction pre arbitrary: out)
  case Nil
  show ?case by simp
next
  case (Cons e pre)
  obtain k v where e: "e = (k, v)" by (cases e)
  show ?case
    unfolding e append_Cons items_step using Cons.IH
    by (simp split: sum.splits)
qed

lemma items_untouched:
  "jsonable_items post mid = Inr out \<Longrightarrow> \<forall>e\<in>set post. out_key e \<noteq> Inr K
     \<Longrightarrow> dict_get out K = dict_get mid K"
proof (induction post arbitrary: mid)
  case Nil
  then show ?case by simp
next
  case (Cons e post)
  obtain k v where e: "e = (k, v)" by (cases e)
  from Cons.prems(1) obtain V K' where
    s: "out_val v = Inr V" "out_key (k, v) = Inr K'"
       "jsonable_items post (dict_set mid K' V) = Inr out"
    unfolding e items_step by (auto split: sum.splits)
  from Cons.prems(2) s(2) have "K' \<noteq> K" by (auto simp: e)
  moreover have "dict_get out K = dict_get (dict_set mid K' V) K"
    using Cons.IH [OF s(3)] Cons.prems(2) by simp
  ultimately show ?case by (simp add: dict_get_set)
qed

lemma items_last_write:
  assumes "jsonable_items (pre @ (k, v) # post) out0 = Inr out"
    and "out_key (k, v) = Inr K"
    and "\<forall>e\<in>set post. out_key e \<noteq> Inr K"
  shows "\<exists>V. out_val v = Inr V \<and> dict_get out K = Some V"
proof -
  from assms(1) obtain mid where
    m: "jsonable_items pre out0 = Inr mid" "jsonable_items ((k, v) # post) mid = Inr out"
    by (auto simp: items_append split: sum.splits)
  from m(2) assms(2) obtain V where
    s: "out_val v = Inr V" "jsonable_items post (dict_set mid K V) = Inr out"
    unfolding items_step by (auto split: sum.splits)
  have "dict_get out K = dict_get (dict_set mid K V) K"
    using items_untouched [OF s(2) assms(3)] .
  with s(1) show ?thesis by (simp add: dict_get_set)
qed

section \<open>What one entry contributes\<close>

lemma maybestr_cases: "maybestr b = Inr PNone \<or> (\<exists>y. maybestr b = Inr (PStr y))"
  by (simp add: maybestr_eq split: sum.split)

lemma jsonable_not_bytes:
  "\<not> isinstance_bytes v \<Longrightarrow> jsonable v = Inr V \<Longrightarrow> \<not> isinstance_bytes V"
  by (cases v) (auto split: sum.splits)

lemma out_key_other: "\<not> isinstance_bytes v \<Longrightarrow> out_key (k, v) = Inr k"
  by (cases v) (simp_all add: out_key_def)

lemma out_val_other: "\<not> isinstance_bytes v \<Longrightarrow> out_val v = jsonable v"
  by (cases v) (simp_all add: out_val_def)

lemma out_val_not_bytes: "out_val v = Inr V \<Longrightarrow> \<not> isinstance_bytes V"
proof (cases "isinstance_bytes v")
  case False
  assume "out_val v = Inr V"
  with False have "jsonable v = Inr V" by (simp add: out_val_other)
  with False show ?thesis by (rule jsonable_not_bytes)
next
  case True
  assume a: "out_val v = Inr V"
  from True obtain b where v: "v = PBytes b" by (cases v) simp_all
  from maybestr_cases [of b] a show ?thesis
    by (auto simp: v out_val_def split: sum.splits if_splits)
qed

lemma items_no_bytes:
  "jsonable_items m mid = Inr out \<Longrightarrow> \<forall>K V. dict_get mid K = Some V \<longrightarrow> \<not> isinstance_bytes V
     \<Longrightarrow> dict_get out K = Some V \<Longrightarrow> \<not> isinstance_bytes V"
proof (induction m arbitrary: mid)
  case Nil
  then show ?case by simp
next
  case (Cons e m)
  obtain k v where e: "e = (k, v)" by (cases e)
  from Cons.prems(1) obtain V' K' where
    s: "out_val v = Inr V'" "out_key (k, v) = Inr K'"
       "jsonable_items m (dict_set mid K' V') = Inr out"
    unfolding e items_step by (auto split: sum.splits)
  have "\<forall>K V. dict_get (dict_set mid K' V') K = Some V \<longrightarrow> \<not> isinstance_bytes V"
    using Cons.prems(2) out_val_not_bytes [OF s(1)] by (auto simp: dict_get_set)
  from Cons.IH [OF s(3) this Cons.prems(3)] show ?case .
qed

lemma out_printable:
  assumes "b \<noteq> []" "\<forall>x\<in>set b. 0x20 \<le> x \<and> x \<le> (0x7F :: 8 word)"
  shows "out_key (k, PBytes b) = Inr k" "out_val (PBytes b) = Inr (PStr (map unat b))"
  using assms(1) maybestr_printable [OF assms(2)]
  by (simp_all add: out_key_def out_val_def)

lemma out_base64:
  assumes "base64_path (PBytes b)"
  shows "out_key (k, PBytes b) = key_add k (str ''_b64'')"
    "out_val (PBytes b) = Inr (PStr (map unat (b64encode b)))"
  using assms
  by (auto simp: base64_path_def out_key_def out_val_def decode_b64encode split: sum.splits)

lemma base64_path_unprintable:
  "(\<exists>x\<in>set b. x < 0x20 \<or> (0x7F :: 8 word) < x) \<or> (\<exists>e. decode b = Inl e)
     \<Longrightarrow> base64_path (PBytes b)"
  by (drule maybestr_unprintable) (simp add: base64_path_def)

lemma key_add_Inr: "key_add k s = Inr K \<Longrightarrow> \<exists>t. k = KText t \<and> K = KText (t @ s)"
  by (cases k) auto

text \<open>The definitions that a run on concrete input unfolds.\<close>

lemmas run_defs = maybestr_def try_except_def decode_def seq_len_def is_cont_def
  b64_char_def b64_alphabet_def str_def out_key_def

section \<open>Byte strings of printable text\<close>

text \<open>
  C1, amended. Let \<open>(k, v)\<close> be an entry of a mapping on which \<^verbatim>\<open>jsonable\<close> returns, with
  \<open>v\<close> a non-empty byte string whose octets all lie in \<open>[0x20, 0x7F]\<close> (such octets are
  valid UTF-8). If no later entry of the mapping is stored under the key \<open>k\<close>, the
  output holds the decoded text of \<open>v\<close> under \<open>k\<close>. If no entry of the mapping is stored
  under the key \<open>k + "_b64"\<close>, the output has no such key.
\<close>

theorem printable_bytes_entry:
  assumes "m = pre @ (k, PBytes b) # post"
    and "b \<noteq> []"
    and "\<forall>x\<in>set b. 0x20 \<le> x \<and> x \<le> (0x7F :: 8 word)"
    and "jsonable (PDict m) = Inr r"
  shows "\<exists>out s. r = PDict out \<and> decode b = Inr s
      \<and> ((\<forall>e\<in>set post. out_key e \<noteq> Inr k) \<longrightarrow> dict_get out k = Some (PStr s))
      \<and> (\<forall>K. key_add k (str ''_b64'') = Inr K \<and> (\<forall>e\<in>set m. out_key e \<noteq> Inr K)
             \<longrightarrow> dict_get out K = None)"
proof -
  from assms(4) obtain out where
    out: "jsonable_items m [] = Inr out" "r = PDict out"
    by (auto split: sum.splits)
  have d: "decode b = Inr (map unat b)"
    unfolding decode_def using assms(3) by (intro utf8_ascii) (auto simp: word_le_nat_alt)
  have 1: "dict_get out k = Some (PStr (map unat b))"
    if "\<forall>e\<in>set post. out_key e \<noteq> Inr k"
    using items_last_write [OF out(1) [unfolded assms(1)] out_printable(1) [OF assms(2,3)] that]
    by (simp add: out_printable(2) [OF assms(2,3)])
  have 2: "dict_get out K = None" if "\<forall>e\<in>set m. out_key e \<noteq> Inr K" for K
    using items_untouched [OF out(1) that] by simp
  from out(2) d 1 2 show ?thesis by simp
qed

theorem printable_bytes_entry_witness:
  "jsonable (PDict [(KText (str ''name''), PBytes (map of_char ''Alice'')),
                    (KText (str ''n''), PInt 1)])
     = Inr (PDict [(KText (str ''name''), PStr (str ''Alice'')), (KText (str ''n''), PInt 1)])
   \<and> dict_get [(KText (str ''name''), PStr (str ''Alice'')), (KText (str ''n''), PInt 1)]
        (KText (str ''name'')) = Some (PStr (str ''Alice''))
   \<and> dict_get [(KText (str ''name''), PStr (str ''Alice'')), (KText (str ''n''), PInt 1)]
        (KText (str ''name_b64'')) = None"
  using printable_bytes_entry
    [of "[(KText (str ''name''), PBytes (map of_char ''Alice'')), (KText (str ''n''), PInt 1)]"
        "[]" "KText (str ''name'')" "map of_char ''Alice''" "[(KText (str ''n''), PInt 1)]"
        "PDict [(KText (str ''name''), PStr (str ''Alice'')), (KText (str ''n''), PInt 1)]"]
  by (simp add: run_defs)

text \<open>
  C1 as stated fails on the empty byte string, which is stored under \<open>k + "_b64"\<close>, and
  on \<^verbatim>\<open>{"x_b64": b"hi", "x": b"\\xff"}\<close>, where the later entry overwrites the text
  stored under \<open>"x_b64"\<close>.
\<close>

theorem printable_bytes_entry_counterexample:
  "jsonable (PDict [(KText (str ''k''), PBytes [])])
     = Inr (PDict [(KText (str ''k_b64''), PStr [])])
   \<and> jsonable (PDict [(KText (str ''x_b64''), PBytes (map of_char ''hi'')),
                      (KText (str ''x''), PBytes [0xff])])
     = Inr (PDict [(KText (str ''x_b64''), PStr (str ''/w==''))])
   \<and> decode (map of_char ''hi'') = Inr (str ''hi'')
   \<and> dict_get [(KText (str ''x_b64''), PStr (str ''/w==''))] (KText (str ''x_b64''))
        \<noteq> Some (PStr (str ''hi''))"
  by (simp add: run_defs)

section \<open>Byte strings that are not printable text\<close>

text \<open>
  C2, amended. Let \<open>(k, v)\<close> be an entry of a mapping on which \<^verbatim>\<open>jsonable\<close> returns, with
  \<open>v\<close> a byte string that has an octet outside \<open>[0x20, 0x7F]\<close> or is not valid UTF-8.
  Then \<open>k\<close> is a text key and the output does not hold the raw bytes \<open>v\<close> under \<open>k\<close>;
  if no later entry of the mapping is stored under the key \<open>k + "_b64"\<close>, the output
  holds the standard base64 text of \<open>v\<close> under that key.
\<close>

theorem base64_bytes_entry:
  assumes "m = pre @ (k, PBytes b) # post"
    and "(\<exists>x\<in>set b. x < 0x20 \<or> (0x7F :: 8 word) < x) \<or> (\<exists>e. decode b = Inl e)"
    and "jsonable (PDict m) = Inr r"
  shows "\<exists>out t. r = PDict out \<and> k = KText t
      \<and> ((\<forall>e\<in>set post. out_key e \<noteq> Inr (KText (t @ str ''_b64'')))
           \<longrightarrow> dict_get out (KText (t @ str ''_b64''))
                = Some (PStr (map unat (b64encode b))))
      \<and> dict_get out k \<noteq> Some (PBytes b)"
proof -
  from assms(3) obtain out where
    out: "jsonable_items m [] = Inr out" "r = PDict out"
    by (auto split: sum.splits)
  note p = base64_path_unprintable [OF assms(2)]
  from out(1) obtain mid mid' where
    "jsonable_items ((k, PBytes b) # post) mid = Inr mid'"
    unfolding assms(1) by (auto simp: items_append split: sum.splits)
  then obtain K where "out_key (k, PBytes b) = Inr K"
    unfolding items_step by (auto split: sum.splits)
  then obtain t where t: "k = KText t" "out_key (k, PBytes b) = Inr (KText (t @ str ''_b64''))"
    using out_base64(1) [OF p, of k] by (auto dest: key_add_Inr)
  have 1: "dict_get out (KText (t @ str ''_b64'')) = Some (PStr (map unat (b64encode b)))"
    if "\<forall>e\<in>set post. out_key e \<noteq> Inr (KText (t @ str ''_b64''))"
    using items_last_write [OF out(1) [unfolded assms(1)] t(2) that]
    by (simp add: out_base64(2) [OF p])
  have 2: "dict_get out k \<noteq> Some (PBytes b)"
    using items_no_bytes [OF out(1), of k "PBytes b"] by auto
  from out(2) t(1) 1 2 show ?thesis by simp
qed

theorem base64_bytes_entry_witness:
  "jsonable (PDict [(KText (str ''blob''), PBytes [0xff, 0xfe, 0]), (KText (str ''n''), PInt 1)])
     = Inr (PDict [(KText (str ''blob_b64''), PStr (str ''//4A'')), (KText (str ''n''), PInt 1)])
   \<and> dict_get [(KText (str ''blob_b64''), PStr (str ''//4A'')), (KText (str ''n''), PInt 1)]
        (KText (str ''blob_b64'')) = Some (PStr (map unat (b64encode [0xff, 0xfe, 0])))
   \<and> dict_get [(KText (str ''blob_b64''), PStr (str ''//4A'')), (KText (str ''n''), PInt 1)]
        (KText (str ''blob'')) \<noteq> Some (PBytes [0xff, 0xfe, 0])"
  using base64_bytes_entry
    [of "[(KText (str ''blob''), PBytes [0xff, 0xfe, 0]), (KText (str ''n''), PInt 1)]"
        "[]" "KText (str ''blob'')" "[0xff, 0xfe, 0]" "[(KText (str ''n''), PInt 1)]"
        "PDict [(KText (str ''blob_b64''), PStr (str ''//4A'')), (KText (str ''n''), PInt 1)]"]
  by (simp add: run_defs)

text \<open>
  C2 as stated fails on \<^verbatim>\<open>{"x": b"\\xff", "x_b64": "hi"}\<close>: the later entry overwrites the
  base64 text \<^verbatim>\<open>/w==\<close> stored under \<open>"x_b64"\<close>.
\<close>

theorem base64_bytes_entry_counterexample:
  "jsonable (PDict [(KText (str ''x''), PBytes [0xff]), (KText (str ''x_b64''), PStr (str ''hi''))])
     = Inr (PDict [(KText (str ''x_b64''), PStr (str ''hi''))])
   \<and> map unat (b64encode [0xff]) = str ''/w==''
   \<and> dict_get [(KText (str ''x_b64''), PStr (str ''hi''))] (KText (str ''x_b64''))
        \<noteq> Some (PStr (str ''/w==''))"
  by (simp add: run_defs)

section \<open>Round trip of the base64 path\<close>

text \<open>
  C6, amended. Let \<open>(k, v)\<close> be an entry that takes the base64 path, in a mapping on
  which \<^verbatim>\<open>jsonable\<close> returns, and let no later entry of the mapping be stored under the
  same output key. Then the output holds a text under \<open>k + "_b64"\<close>, and standard base64
  decoding of that text gives back exactly \<open>v\<close>.
\<close>

theorem base64_entry_roundtrip:
  assumes "m = pre @ (k, PBytes b) # post"
    and "base64_path (PBytes b)"
    and "jsonable (PDict m) = Inr r"
    and "\<forall>e\<in>set post. out_key e \<noteq> out_key (k, PBytes b)"
  shows "\<exists>out t s. r = PDict out \<and> k = KText t
      \<and> dict_get out (KText (t @ str ''_b64'')) = Some (PStr s) \<and> b64decode s = Inr b"
proof -
  from assms(3) obtain out where
    out: "jsonable_items m [] = Inr out" "r = PDict out"
    by (auto split: sum.splits)
  from out(1) obtain mid mid' where
    "jsonable_items ((k, PBytes b) # post) mid = Inr mid'"
    unfolding assms(1) by (auto simp: items_append split: sum.splits)
  then obtain K where "out_key (k, PBytes b) = Inr K"
    unfolding items_step by (auto split: sum.splits)
  then obtain t where t: "k = KText t" "out_key (k, PBytes b) = Inr (KText (t @ str ''_b64''))"
    using out_base64(1) [OF assms(2), of k] by (auto dest: key_add_Inr)
  from assms(4) have "\<forall>e\<in>set post. out_key e \<noteq> Inr (KText (t @ str ''_b64''))"
    by (simp add: t(2))
  from items_last_write [OF out(1) [unfolded assms(1)] t(2) this]
  have "dict_get out (KText (t @ str ''_b64'')) = Some (PStr (map unat (b64encode b)))"
    by (simp add: out_base64(2) [OF assms(2)])
  with out(2) t(1) b64_roundtrip [of b] show ?thesis by simp
qed

theorem base64_entry_roundtrip_witness:
  "jsonable (PDict [(KText (str ''blob''), PBytes [0xff, 0xfe, 0]), (KText (str ''n''), PInt 1)])
     = Inr (PDict [(KText (str ''blob_b64''), PStr (str ''//4A'')), (KText (str ''n''), PInt 1)])
   \<and> base64_path (PBytes [0xff, 0xfe, 0])
   \<and> b64decode (str ''//4A'') = Inr [0xff, 0xfe, 0]"
  using base64_entry_roundtrip
    [of "[(KText (str ''blob''), PBytes [0xff, 0xfe, 0]), (KText (str ''n''), PInt 1)]"
        "[]" "KText (str ''blob'')" "[0xff, 0xfe, 0]" "[(KText (str ''n''), PInt 1)]"
        "PDict [(KText (str ''blob_b64''), PStr (str ''//4A'')), (KText (str ''n''), PInt 1)]"]
  by (simp add: run_defs base64_path_def)

text \<open>
  C6 as stated fails on \<^verbatim>\<open>{"x": b"\\xff", "x_b64": "aGk="}\<close>: the text left under
  \<open>"x_b64"\<close> is that of the later entry and decodes to \<^verbatim>\<open>b"hi"\<close>.
\<close>

theorem base64_entry_roundtrip_counterexample:
  "jsonable (PDict [(KText (str ''x''), PBytes [0xff]), (KText (str ''x_b64''), PStr (str ''aGk=''))])
     = Inr (PDict [(KText (str ''x_b64''), PStr (str ''aGk=''))])
   \<and> base64_path (PBytes [0xff])
   \<and> dict_get [(KText (str ''x_b64''), PStr (str ''aGk=''))] (KText (str ''x_b64''))
       = Some (PStr (str ''aGk=''))
   \<and> b64decode (str ''aGk='') = Inr [0x68, 0x69]
   \<and> b64decode (str ''aGk='') \<noteq> Inr [0xff]"
  by (simp add: run_defs base64_path_def b64_index_def)

section \<open>Values that are not byte strings\<close>

text \<open>
  C8, amended. Let \<open>(k, v)\<close> be an entry of a mapping on which \<^verbatim>\<open>jsonable\<close> returns, with
  \<open>v\<close> not a byte string, and let no later entry of the mapping be stored under the key
  \<open>k\<close>. Then the output holds \<^verbatim>\<open>jsonable(v)\<close> under the key \<open>k\<close> itself.
\<close>

theorem other_entry:
  assumes "m = pre @ (k, v) # post"
    and "\<not> isinstance_bytes v"
    and "jsonable (PDict m) = Inr r"
    and "\<forall>e\<in>set post. out_key e \<noteq> Inr k"
  shows "\<exists>out v'. r = PDict out \<and> jsonable v = Inr v' \<and> dict_get out k = Some v'"
proof -
  from assms(3) obtain out where
    out: "jsonable_items m [] = Inr out" "r = PDict out"
    by (auto split: sum.splits)
  from items_last_write [OF out(1) [unfolded assms(1)] out_key_other [OF assms(2)] assms(4)]
  show ?thesis by (simp add: out(2) out_val_other [OF assms(2)])
qed

theorem other_entry_witness:
  "jsonable (PDict [(KText (str ''a''), PDict [(KText (str ''b''), PBytes [0xff])]),
                    (KInt 7, PList [PBytes [0xff]])])
     = Inr (PDict [(KText (str ''a''), PDict [(KText (str ''b_b64''), PStr (str ''/w==''))]),
                   (KInt 7, PList [PBytes [0xff]])])
   \<and> jsonable (PDict [(KText (str ''b''), PBytes [0xff])])
       = Inr (PDict [(KText (str ''b_b64''), PStr (str ''/w==''))])
   \<and> dict_get [(KText (str ''a''), PDict [(KText (str ''b_b64''), PStr (str ''/w==''))]),
                (KInt 7, PList [PBytes [0xff]])] (KText (str ''a''))
       = Some (PDict [(KText (str ''b_b64''), PStr (str ''/w==''))])"
  using other_entry
    [of "[(KText (str ''a''), PDict [(KText (str ''b''), PBytes [0xff])]),
          (KInt 7, PList [PBytes [0xff]])]"
        "[]" "KText (str ''a'')" "PDict [(KText (str ''b''), PBytes [0xff])]"
        "[(KInt 7, PList [PBytes [0xff]])]"
        "PDict [(KText (str ''a''), PDict [(KText (str ''b_b64''), PStr (str ''/w==''))]),
                (KInt 7, PList [PBytes [0xff]])]"]
  by (simp add: run_defs)

text \<open>
  C8 as stated fails on \<^verbatim>\<open>{"x_b64": 1, "x": b"\\xff"}\<close>: the later entry overwrites the
  value stored under \<open>"x_b64"\<close>.
\<close>

theorem other_entry_counterexample:
  "jsonable (PDict [(KText (str ''x_b64''), PInt 1), (KText (str ''x''), PBytes [0xff])])
     = Inr (PDict [(KText (str ''x_b64''), PStr (str ''/w==''))])
   \<and> jsonable (PInt 1) = Inr (PInt 1)
   \<and> dict_get [(KText (str ''x_b64''), PStr (str ''/w==''))] (KText (str ''x_b64''))
        \<noteq> Some (PInt 1)"
  by (simp add: run_defs)

section \<open>No error on mappings with text keys\<close>

lemma text_keys_items_iff:
  "text_keys_items m \<longleftrightarrow> (\<forall>e\<in>set m. (\<exists>t. fst e = KText t) \<and> text_keys (snd e))"
proof (induction m)
  case Nil
  show ?case by simp
next
  case (Cons e m)
  obtain k v where e: "e = (k, v)" by (cases e)
  show ?case unfolding e using Cons.IH by (cases k) auto
qed

lemma out_val_total: "\<exists>r. jsonable v = Inr r \<Longrightarrow> \<exists>V. out_val v = Inr V"
proof (cases "isinstance_bytes v")
  case False
  assume "\<exists>r. jsonable v = Inr r"
  with False show ?thesis by (simp add: out_val_other)
next
  case True
  then obtain b where v: "v = PBytes b" by (cases v) simp_all
  from maybestr_cases [of b] show ?thesis
    by (auto simp: v out_val_def decode_b64encode)
qed

lemma out_key_total: "\<exists>K. out_key (KText t, v) = Inr K"
proof (cases "isinstance_bytes v")
  case False
  then show ?thesis by (simp add: out_key_other)
next
  case True
  then obtain b where v: "v = PBytes b" by (cases v) simp_all
  from maybestr_cases [of b] show ?thesis
    by (auto simp: v out_key_def)
qed

lemma items_total:
  "\<forall>e\<in>set m. \<not> isl (out_key e) \<and> \<not> isl (out_val (snd e))
     \<Longrightarrow> \<exists>out'. jsonable_items m out = Inr out'"
proof (induction m arbitrary: out)
  case Nil
  show ?case by simp
next
  case (Cons e m)
  obtain k v where e: "e = (k, v)" by (cases e)
  from Cons.prems obtain K V where KV: "out_key (k, v) = Inr K" "out_val v = Inr V"
    by (cases "out_key (k, v)"; cases "out_val v") (auto simp: e)
  from Cons.prems have "\<forall>e\<in>set m. \<not> isl (out_key e) \<and> \<not> isl (out_val (snd e))"
    by simp
  from Cons.IH [OF this, of "dict_set out K V"] show ?case
    unfolding e items_step by (simp add: KV)
qed

lemma jsonable_total: "text_keys v \<Longrightarrow> \<exists>r. jsonable v = Inr r"
proof (induction v)
  case (PDict x)
  have "\<forall>e\<in>set x. \<not> isl (out_key e) \<and> \<not> isl (out_val (snd e))"
  proof
    fix e assume m: "e \<in> set x"
    obtain k v where e: "e = (k, v)" by (cases e)
    from PDict.prems m obtain t where t: "k = KText t" and v: "text_keys v"
      by (auto simp: text_keys_items_iff e)
    from PDict.IH [of e v] m v have "\<exists>r. jsonable v = Inr r" by (simp add: e)
    from out_val_total [OF this] out_key_total [of t v]
    show "\<not> isl (out_key e) \<and> \<not> isl (out_val (snd e))"
      by (auto simp: e t)
  qed
  from items_total [OF this, of "[]"] show ?case by auto
qed simp_all

lemma text_keys_entries:
  assumes "text_keys (PDict m)"
  shows "\<forall>e\<in>set m. \<not> isl (out_key e) \<and> \<not> isl (out_val (snd e))"
proof
  fix e assume m: "e \<in> set m"
  obtain k v where e: "e = (k, v)" by (cases e)
  from assms m obtain t where t: "k = KText t" and v: "text_keys v"
    by (auto simp: text_keys_items_iff e)
  from out_val_total [OF jsonable_total [OF v]] out_key_total [of t v]
  show "\<not> isl (out_key e) \<and> \<not> isl (out_val (snd e))"
    by (auto simp: e t)
qed

text \<open>
  C7. \<^verbatim>\<open>maybestr\<close> raises nothing. An error of the text decoding is caught there and
  gives \<^verbatim>\<open>None\<close>, and \<^verbatim>\<open>jsonable\<close> then takes the base64 path for the entry: the round of
  the loop stores the base64 text of the bytes under \<open>k + "_b64"\<close> and goes on, a mapping
  of that one entry is transformed to the one base64 entry, and in any mapping with text
  keys the output holds the base64 text under \<open>k + "_b64"\<close> unless a later entry is stored
  under that key. On a mapping whose keys are text, at every level that \<^verbatim>\<open>jsonable\<close>
  visits, \<^verbatim>\<open>jsonable\<close> raises nothing and returns a value.
\<close>

theorem jsonable_raises_nothing:
  "(\<exists>r. maybestr x = Inr r)
   \<and> (decode x = Inl e \<longrightarrow>
        maybestr x = Inr PNone
        \<and> base64_path (PBytes x)
        \<and> jsonable_items ((KText k, PBytes x) # rest) out
            = jsonable_items rest
                (dict_set out (KText (k @ str ''_b64'')) (PStr (map unat (b64encode x))))
        \<and> jsonable (PDict [(KText k, PBytes x)])
            = Inr (PDict [(KText (k @ str ''_b64''), PStr (map unat (b64encode x)))])
        \<and> (text_keys (PDict (pre @ (KText k, PBytes x) # post))
             \<and> (\<forall>e'\<in>set post. out_key e' \<noteq> Inr (KText (k @ str ''_b64'')))
             \<longrightarrow> (\<exists>res. jsonable (PDict (pre @ (KText k, PBytes x) # post)) = Inr (PDict res)
                    \<and> dict_get res (KText (k @ str ''_b64''))
                        = Some (PStr (map unat (b64encode x))))))
   \<and> (text_keys v \<longrightarrow> (\<exists>r. jsonable v = Inr r))"
proof (intro conjI impI)
  show "\<exists>r. maybestr x = Inr r"
    using maybestr_cases [of x] by auto
next
  assume d: "decode x = Inl e"
  then show n: "maybestr x = Inr PNone" by (simp add: maybestr_eq)
  then show p: "base64_path (PBytes x)" by (simp add: base64_path_def)
  from n show s: "jsonable_items ((KText k, PBytes x) # rest) out
      = jsonable_items rest
          (dict_set out (KText (k @ str ''_b64'')) (PStr (map unat (b64encode x))))"
    for rest out
    by (simp add: decode_b64encode)
  from n show "jsonable (PDict [(KText k, PBytes x)])
      = Inr (PDict [(KText (k @ str ''_b64''), PStr (map unat (b64encode x)))])"
    by (simp add: decode_b64encode)
  assume a: "text_keys (PDict (pre @ (KText k, PBytes x) # post))
    \<and> (\<forall>e'\<in>set post. out_key e' \<noteq> Inr (KText (k @ str ''_b64'')))"
  from jsonable_total [of "PDict (pre @ (KText k, PBytes x) # post)"] a obtain res where
    res: "jsonable_items (pre @ (KText k, PBytes x) # post) [] = Inr res"
      "jsonable (PDict (pre @ (KText k, PBytes x) # post)) = Inr (PDict res)"
    by (auto split: sum.splits)
  have K: "out_key (KText k, PBytes x) = Inr (KText (k @ str ''_b64''))"
    using out_base64(1) [OF p, of "KText k"] by simp
  from a have "\<forall>e'\<in>set post. out_key e' \<noteq> Inr (KText (k @ str ''_b64''))" by simp
  from items_last_write [OF res(1) K this]
  have "dict_get res (KText (k @ str ''_b64'')) = Some (PStr (map unat (b64encode x)))"
    by (simp add: out_base64(2) [OF p])
  with res(2) show "\<exists>res. jsonable (PDict (pre @ (KText k, PBytes x) # post)) = Inr (PDict res)
      \<and> dict_get res (KText (k @ str ''_b64'')) = Some (PStr (map unat (b64encode x)))"
    by simp
next
  assume "text_keys v"
  then show "\<exists>r. jsonable v = Inr r" by (rule jsonable_total)
qed

theorem jsonable_raises_nothing_witness:
  "decode [0xC3] = Inl UnicodeDecodeError
   \<and> maybestr [0xC3] = Inr PNone
   \<and> base64_path (PBytes [0xC3])
   \<and> jsonable (PDict [(KText (str ''a''), PBytes [0xC3])])
       = Inr (PDict [(KText (str ''a_b64''), PStr (str ''ww==''))])
   \<and> text_keys (PDict [(KText (str ''n''), PInt 1), (KText (str ''a''), PBytes [0xC3]),
                        (KText (str ''b''), PDict [(KText (str ''c''), PBytes [0x80])])])
   \<and> jsonable (PDict [(KText (str ''n''), PInt 1), (KText (str ''a''), PBytes [0xC3]),
                       (KText (str ''b''), PDict [(KText (str ''c''), PBytes [0x80])])])
       = Inr (PDict [(KText (str ''n''), PInt 1), (KText (str ''a_b64''), PStr (str ''ww=='')),
                     (KText (str ''b''), PDict [(KText (str ''c_b64''), PStr (str ''gA==''))])])
   \<and> dict_get [(KText (str ''n''), PInt 1), (KText (str ''a_b64''), PStr (str ''ww=='')),
                (KText (str ''b''), PDict [(KText (str ''c_b64''), PStr (str ''gA==''))])]
        (KText (str ''a_b64'')) = Some (PStr (map unat (b64encode [0xC3])))"
  using jsonable_raises_nothing
    [of "[0xC3]" UnicodeDecodeError "str ''a''" "[]" "[]"
        "[(KText (str ''n''), PInt 1)]"
        "[(KText (str ''b''), PDict [(KText (str ''c''), PBytes [0x80])])]"
        "PDict [(KText (str ''n''), PInt 1), (KText (str ''a''), PBytes [0xC3]),
                (KText (str ''b''), PDict [(KText (str ''c''), PBytes [0x80])])]"]
  by (simp add: run_defs base64_path_def)

section \<open>Two entries stored under one key\<close>

lemma out_key_cases:
  "out_key (k, v) = Inr K \<Longrightarrow> k = K \<or> key_add k (str ''_b64'') = Inr K"
  by (cases v) (auto simp: out_key_def split: sum.splits if_splits)

lemma key_add_inj: "key_add k s = Inr K \<Longrightarrow> key_add k' s = Inr K \<Longrightarrow> k = k'"
  by (cases k; cases k') auto

lemma third_writer_impossible:
  assumes "out_key e1 = Inr K" "out_key e2 = Inr K" "out_key e3 = Inr K"
    and "fst e1 \<noteq> fst e2" "fst e1 \<noteq> fst e3" "fst e2 \<noteq> fst e3"
  shows False
proof -
  have "fst e = K \<or> key_add (fst e) (str ''_b64'') = Inr K" if "out_key e = Inr K" for e
    using out_key_cases [of "fst e" "snd e" K] that by simp
  from this [OF assms(1)] this [OF assms(2)] this [OF assms(3)] assms(4-6)
  show False by (auto dest: key_add_inj)
qed

text \<open>
  C10, amended. Let two entries of a mapping be stored under the same output key \<open>K\<close>, in
  a mapping whose entries are each transformed without error when taken alone (as are
  all entries of a mapping with text keys). Then \<^verbatim>\<open>jsonable\<close> raises no error, and the
  output holds under \<open>K\<close> the value of the later of the two entries.
\<close>

theorem last_write_wins:
  assumes "\<forall>e\<in>set m. \<not> isl (out_key e) \<and> \<not> isl (out_val (snd e))"
    and "distinct (map fst m)"
    and "m = pre @ e1 # mid @ e2 # post"
    and "out_key e1 = Inr K" and "out_key e2 = Inr K"
  shows "\<exists>out V. jsonable (PDict m) = Inr (PDict out) \<and> out_val (snd e2) = Inr V
      \<and> dict_get out K = Some V"
proof -
  from items_total [OF assms(1), of "[]"] obtain out where
    out: "jsonable_items m [] = Inr out" "jsonable (PDict m) = Inr (PDict out)"
    by auto
  have later: "\<forall>e\<in>set post. out_key e \<noteq> Inr K"
  proof (intro ballI notI)
    fix e3 assume e3: "e3 \<in> set post" "out_key e3 = Inr K"
    from assms(2) e3(1) have "fst e1 \<noteq> fst e2" "fst e1 \<noteq> fst e3" "fst e2 \<noteq> fst e3"
      unfolding assms(3) by auto
    from third_writer_impossible [OF assms(4,5) e3(2) this] show False .
  qed
  obtain k2 v2 where e2: "e2 = (k2, v2)" by (cases e2)
  have m: "m = (pre @ e1 # mid) @ (k2, v2) # post" by (simp add: assms(3) e2)
  from items_last_write [OF out(1) [unfolded m] assms(5) [unfolded e2] later] out(2)
  show ?thesis by (simp add: e2)
qed

theorem last_write_wins_witness:
  "out_key (KText (str ''x_b64''), PStr (str ''a'')) = Inr (KText (str ''x_b64''))
   \<and> out_key (KText (str ''x''), PBytes [0xff]) = Inr (KText (str ''x_b64''))
   \<and> out_val (PBytes [0xff]) = Inr (PStr (str ''/w==''))
   \<and> jsonable (PDict [(KText (str ''x_b64''), PStr (str ''a'')), (KText (str ''x''), PBytes [0xff])])
       = Inr (PDict [(KText (str ''x_b64''), PStr (str ''/w==''))])
   \<and> dict_get [(KText (str ''x_b64''), PStr (str ''/w==''))] (KText (str ''x_b64''))
       = Some (PStr (str ''/w==''))"
  using last_write_wins
    [of "[(KText (str ''x_b64''), PStr (str ''a'')), (KText (str ''x''), PBytes [0xff])]"
        "[]" "(KText (str ''x_b64''), PStr (str ''a''))" "[]" "(KText (str ''x''), PBytes [0xff])"
        "[]" "KText (str ''x_b64'')"]
  by (simp add: run_defs out_val_def)

text \<open>
  C10 as stated fails on \<^verbatim>\<open>{"x_b64": "a", "x": b"\\xff", 7: b"\\xfe"}\<close>: the first two
  entries are stored under \<open>"x_b64"\<close>, and the third raises \<^verbatim>\<open>TypeError\<close> at
  \<^verbatim>\<open>k + '_b64'\<close>.
\<close>

theorem last_write_wins_counterexample:
  "out_key (KText (str ''x_b64''), PStr (str ''a'')) = Inr (KText (str ''x_b64''))
   \<and> out_key (KText (str ''x''), PBytes [0xff]) = Inr (KText (str ''x_b64''))
   \<and> jsonable (PDict [(KText (str ''x_b64''), PStr (str ''a'')), (KText (str ''x''), PBytes [0xff]),
                      (KInt 7, PBytes [0xfe])])
       = Inl TypeError"
  by (simp add: run_defs)

section \<open>How the main loop ends\<close>

lemma main_loop_status:
  "main_loop load dump inp out = Some ro \<Longrightarrow> exit_status (fst ro) \<noteq> 0"
  by (rule main_loop.raw_induct [rotated, where P = "\<lambda>_ _ _ _ ro. exit_status (fst ro) \<noteq> 0"])
    (auto split: sum.splits prod.splits)

lemma main_loop_raise:
  "load inp = Inl e \<Longrightarrow> main_loop load dump inp out = Some (Uncaught e, out)"
  by (subst main_loop.simps) simp

lemma main_loop_terminates:
  assumes "\<And>i ob rest. load i = Inr (ob, rest) \<Longrightarrow> length rest < length i"
  shows "\<exists>ro. main_loop load dump inp out = Some ro"
proof (induction inp arbitrary: out rule: length_induct)
  case (1 inp)
  show ?case
  proof (cases "load inp")
    case (Inl e)
    then show ?thesis by (simp add: main_loop_raise)
  next
    case (Inr p)
    obtain ob rest where p: "p = (ob, rest)" by (cases p)
    from assms Inr p have l: "length rest < length inp" by simp
    show ?thesis
    proof (cases "jsonable ob")
      case (Inl e)
      with Inr p show ?thesis by (subst main_loop.simps) simp
    next
      case j: (Inr j)
      show ?thesis
      proof (cases "dump j")
        case (Inl e)
        with Inr p j show ?thesis by (subst main_loop.simps) simp
      next
        case d: (Inr line)
        from 1 l obtain ro where
          "main_loop load dump rest (out @ [line, str ''\<newline>'']) = Some ro" by blast
        with Inr p j d show ?thesis by (subst main_loop.simps) simp
      qed
    qed
  qed
qed

lemma load_simple_consumes:
  "load_simple i = Inr (ob, rest) \<Longrightarrow> length rest < length i"
  by (cases i) (auto split: if_splits)

text \<open>
  C9, amended. The loop \<^verbatim>\<open>while True\<close> has no normal exit: whenever the process ends, it
  ends by an exception that nothing catches, with a non-zero exit status. When the
  decoder raises, at the end of the input or on a malformed item, the process ends with
  that exception and the output written so far; on empty input that is no output at all.
  With a decoder that consumes input on every item the process does end.
\<close>

theorem main_loop_exit:
  "(main_loop load dump inp out = Some (r, out') \<longrightarrow> exit_status r \<noteq> 0)
   \<and> (load inp = Inl e \<longrightarrow> main_loop load dump inp out = Some (Uncaught e, out))
   \<and> ((\<forall>i ob rest. load i = Inr (ob, rest) \<longrightarrow> length rest < length i)
        \<longrightarrow> (\<exists>r' out''. main_loop load dump inp out = Some (r', out'')))"
  using main_loop_status [of load dump inp out "(r, out')"]
    main_loop_raise [of load inp e dump out]
    main_loop_terminates [of load dump inp out]
  by auto

theorem main_loop_exit_witness:
  "main_loop load_simple dump_simple [0xF6, 0xF5] []
     = Some (Uncaught EOFError, [str ''null'', str ''\<newline>'', str ''true'', str ''\<newline>''])
   \<and> exit_status (Uncaught EOFError) \<noteq> 0
   \<and> load_simple [] = Inl EOFError
   \<and> main_loop load_simple dump_simple [] [] = Some (Uncaught EOFError, [])"
proof -
  have run: "main_loop load_simple dump_simple [0xF6, 0xF5] []
     = Some (Uncaught EOFError, [str ''null'', str ''\<newline>'', str ''true'', str ''\<newline>''])"
    by (simp add: main_loop.simps)
  have c: "\<forall>i ob rest. load_simple i = Inr (ob, rest) \<longrightarrow> length rest < length i"
    by (auto dest: load_simple_consumes)
  from run c
    main_loop_exit [of load_simple dump_simple "[0xF6, 0xF5]" "[]" "Uncaught EOFError"
      "[str ''null'', str ''\<newline>'', str ''true'', str ''\<newline>'']" EOFError]
    main_loop_exit [of load_simple dump_simple "[]" "[]" "Uncaught EOFError" "[]" EOFError]
  show ?thesis by simp
qed

text \<open>
  C9 as stated fails on empty input: the decoder raises \<^verbatim>\<open>EOFError\<close>, nothing catches it,
  and the exit status is 1.
\<close>

theorem main_loop_exit_counterexample:
  "main_loop load_simple dump_simple [] [] = Some (Uncaught EOFError, [])
   \<and> exit_status (Uncaught EOFError) = 1"
  by (simp add: main_loop.simps)

end
